theory Spec2Isabelle
  imports Complex_Main "HOL-Library.Log_Nat"
begin

section \<open>Data model of \<open>CrateGenerator\<close> (scripts/generate_crates.py)\<close>

text \<open>
  Python values are modelled as follows.
  \<^item> A \<open>dict\<close> with string keys is an association list in insertion order; a dict holds a
    key at most once, so the lists that stand for dicts have distinct keys. \<open>k in d\<close>,
    \<open>d[k]\<close> (which raises \<open>KeyError\<close> on a missing key) and \<open>d.get(k, default)\<close>
    are \<open>dict_contains\<close>, \<open>dict_getitem\<close> and \<open>dict_get\<close>.
  \<^item> Exceptions are values of \<open>py_error\<close>; a function that may raise returns
    \<open>py_error + 'a\<close>.
  \<^item> A \<open>set\<close> of strings is held as the sequence of its insertions. The order in which
    Python iterates over a set is not fixed by the language (for strings it follows the
    hashes, which are salted anew for every interpreter process), so the iteration is a
    parameter \<open>it\<close> of the model, of which only \<open>set_iter_ok\<close> is known: every element
    is visited once.
  \<^item> Strings are lists of characters (ASCII text, as crate and component names are).
\<close>

datatype py_error = KeyError string | IndexError | ZeroDivisionError

type_synonym 'v py_dict = "(string \<times> 'v) list"

definition dict_contains :: "'v py_dict \<Rightarrow> string \<Rightarrow> bool" where
  "dict_contains d k = (k \<in> set (map fst d))"

definition dict_getitem :: "'v py_dict \<Rightarrow> string \<Rightarrow> py_error + 'v" where
  "dict_getitem d k = (case map_of d k of None \<Rightarrow> Inl (KeyError k) | Some v \<Rightarrow> Inr v)"

definition dict_get :: "'v py_dict \<Rightarrow> string \<Rightarrow> 'v \<Rightarrow> 'v" where
  "dict_get d k dflt = (case map_of d k of None \<Rightarrow> dflt | Some v \<Rightarrow> v)"

definition dict_keys :: "'v py_dict \<Rightarrow> string list" where
  "dict_keys d = map fst d"

type_synonym set_iter = "string list \<Rightarrow> string list"

definition set_iter_ok :: "set_iter \<Rightarrow> bool" where
  "set_iter_ok it = (\<forall>xs. distinct (it xs) \<and> set (it xs) = set xs)"

text \<open>
  A node of the DAG is a dict of attributes (\<open>{"status": "completed"}\<close>); an edge is a
  dict with exactly the keys \<open>from\<close> and \<open>to\<close>, a pair of component names.
  \<open>dag_data\<close> is the dict with the two keys \<open>nodes\<close> and \<open>edges\<close>.
\<close>

type_synonym node = "string py_dict"

record edge =
  e_from :: string
  e_to :: string

record dag =
  nodes :: "node py_dict"
  edges :: "edge list"

datatype dep_config = ConfigStr string | ConfigDict string "string list"

text \<open>
  The fields of \<open>self\<close> that the generator reads. (\<open>project_root\<close> and \<open>crates_dir\<close>
  are used only to write files.) In \<open>ConfigDict version features\<close> an absent
  \<open>features\<close> key is the empty list, as \<open>config.get('features', [])\<close> reads it.
\<close>

record crate_generator =
  crate_mapping :: "string list py_dict"
  dag_data :: dag
  common_deps :: "dep_config py_dict"

section \<open>Package lookup and dependency resolution\<close>

text \<open>\<open>_get_crate_from_component\<close>: the first crate, in the order of the mapping, that lists
  the component; \<open>kotoba-core\<close> when none does.\<close>

fun get_crate_from_component :: "string list py_dict \<Rightarrow> string \<Rightarrow> string" where
  "get_crate_from_component [] component = ''kotoba-core''"
| "get_crate_from_component ((crate_name, components) # rest) component =
     (if component \<in> set components then crate_name
      else get_crate_from_component rest component)"

text \<open>The comprehension \<open>[edge['from'] for edge in edges if edge['to'] == comp]\<close>.\<close>

definition producers :: "dag \<Rightarrow> string \<Rightarrow> string list" where
  "producers g cmp = map e_from (filter (\<lambda>edge. e_to edge = cmp) (edges g))"

text \<open>The first loop of \<open>_get_crate_dependencies\<close>: \<open>all_deps.update(deps)\<close> for every
  component that is a node.\<close>

fun collect_deps :: "dag \<Rightarrow> string list \<Rightarrow> string list \<Rightarrow> string list" where
  "collect_deps g [] all_deps = all_deps"
| "collect_deps g (cmp # components) all_deps =
     (if dict_contains (nodes g) cmp
      then collect_deps g components (all_deps @ producers g cmp)
      else collect_deps g components all_deps)"

text \<open>The second loop: the owning crate of every dependency, unless it is the crate itself.\<close>

fun external_loop :: "string list py_dict \<Rightarrow> string \<Rightarrow> string list \<Rightarrow> string list \<Rightarrow> string list" where
  "external_loop cm crate_name [] external_deps = external_deps"
| "external_loop cm crate_name (dep # rest) external_deps =
     (let dep_crate = get_crate_from_component cm dep in
      if dep_crate \<noteq> crate_name
      then external_loop cm crate_name rest (external_deps @ [dep_crate])
      else external_loop cm crate_name rest external_deps)"

definition get_crate_dependencies :: "set_iter \<Rightarrow> crate_generator \<Rightarrow> string \<Rightarrow> py_error + string list" where
  "get_crate_dependencies it self crate_name =
     (if \<not> dict_contains (crate_mapping self) crate_name then Inr []
      else case dict_getitem (crate_mapping self) crate_name of
             Inl err \<Rightarrow> Inl err
           | Inr components \<Rightarrow>
               (let all_deps = collect_deps (dag_data self) components [];
                    external_deps = external_loop (crate_mapping self) crate_name (it all_deps) []
                in Inr (it external_deps)))"

section \<open>Version policy\<close>

text \<open>
  The loop of \<open>_get_crate_version\<close>, with the two counters as an accumulator
  \<open>(completed_count, total_count)\<close>. Only components that are nodes are counted.
\<close>

fun count_loop :: "node py_dict \<Rightarrow> string list \<Rightarrow> nat \<times> nat \<Rightarrow> py_error + nat \<times> nat" where
  "count_loop ns [] (completed_count, total_count) = Inr (completed_count, total_count)"
| "count_loop ns (cmp # cmps) (completed_count, total_count) =
     (if dict_contains ns cmp then
        (case dict_getitem ns cmp of
           Inl err \<Rightarrow> Inl err
         | Inr n \<Rightarrow>
             if map_of n ''status'' = Some ''completed''
             then count_loop ns cmps (completed_count + 1, total_count + 1)
             else count_loop ns cmps (completed_count, total_count + 1))
      else count_loop ns cmps (completed_count, total_count))"

text \<open>
  Floats. Python's \<open>a / b\<close> on two ints is the double nearest to the exact quotient,
  ties going to the even neighbour, and a float literal is the double nearest to its
  decimal value. A double has 53 significant bits: for a quotient in the binade
  \<open>2^e \<le> a/b < 2^(e+1)\<close> the doubles are the multiples of \<open>2^(e-52)\<close>. The counts
  are never negative, so \<open>nearest_double\<close> is given for naturals; the exponent range of
  doubles is left out, quotients of two list lengths being far from its ends. Division by
  zero raises \<open>ZeroDivisionError\<close>.
\<close>

definition round_half_even :: "rat \<Rightarrow> int" where
  "round_half_even x =
     (let f = \<lfloor>x\<rfloor>; r = x - of_int f in
      if r < 1 / 2 then f else if 1 / 2 < r then f + 1 else if even f then f else f + 1)"

definition binade :: "nat \<Rightarrow> nat \<Rightarrow> int" where
  "binade a b =
     (let e0 = bitlen (int a) - bitlen (int b) in
      if (of_nat b :: rat) * 2 powi e0 \<le> of_nat a then e0 else e0 - 1)"

definition nearest_double :: "nat \<Rightarrow> nat \<Rightarrow> rat" where
  "nearest_double a b =
     (if a = 0 then 0
      else (let e = binade a b in
            of_int (round_half_even (of_nat a / of_nat b * 2 powi (52 - e))) * 2 powi (e - 52)))"

definition py_truediv :: "nat \<Rightarrow> nat \<Rightarrow> py_error + rat" where
  "py_truediv a b = (if b = 0 then Inl ZeroDivisionError else Inr (nearest_double a b))"

text \<open>The literals \<open>0.8\<close> and \<open>0.5\<close>.\<close>

definition float_0_8 :: rat where
  "float_0_8 = nearest_double 8 10"

definition float_0_5 :: rat where
  "float_0_5 = nearest_double 5 10"

text \<open>The rest of \<open>_get_crate_version\<close>, from \<open>if total_count == 0\<close> on.\<close>

definition version_of_counts :: "nat \<Rightarrow> nat \<Rightarrow> py_error + string" where
  "version_of_counts completed_count total_count =
     (if total_count = 0 then Inr ''0.1.0''
      else (case py_truediv completed_count total_count of
              Inl err \<Rightarrow> Inl err
            | Inr completion_rate \<Rightarrow>
                if completion_rate \<ge> float_0_8 then Inr ''0.1.0''
                else if completion_rate \<ge> float_0_5 then Inr ''0.1.0-alpha''
                else Inr ''0.1.0-dev''))"

definition count_components :: "crate_generator \<Rightarrow> string \<Rightarrow> py_error + nat \<times> nat" where
  "count_components self crate_name =
     count_loop (nodes (dag_data self)) (dict_get (crate_mapping self) crate_name []) (0, 0)"

definition get_crate_version :: "crate_generator \<Rightarrow> string \<Rightarrow> py_error + string" where
  "get_crate_version self crate_name =
     (case count_components self crate_name of
        Inl err \<Rightarrow> Inl err
      | Inr (completed_count, total_count) \<Rightarrow> version_of_counts completed_count total_count)"

section \<open>Strings of Python\<close>

text \<open>\<open>s.split(sep)\<close> for a separator of one character.\<close>

fun split_on :: "char \<Rightarrow> string \<Rightarrow> string list" where
  "split_on sep [] = [[]]"
| "split_on sep (ch # rest) =
     (if ch = sep then [] # split_on sep rest
      else (case split_on sep rest of [] \<Rightarrow> [[ch]] | w # ws \<Rightarrow> (ch # w) # ws))"

text \<open>\<open>xs[i]\<close> for an index that is not negative.\<close>

definition list_getitem :: "'a list \<Rightarrow> nat \<Rightarrow> py_error + 'a" where
  "list_getitem xs i = (if i < length xs then Inr (xs ! i) else Inl IndexError)"

text \<open>\<open>sep.join(xs)\<close>.\<close>

fun join :: "string \<Rightarrow> string list \<Rightarrow> string" where
  "join sep [] = []"
| "join sep [x] = x"
| "join sep (x # y # ys) = x @ sep @ join sep (y # ys)"

text \<open>
  \<open>s.title()\<close> on ASCII text: a letter that follows a letter is put in lower case, any
  other letter in upper case; characters that are no ASCII letters stay.
\<close>

definition is_ascii_upper :: "char \<Rightarrow> bool" where
  "is_ascii_upper c = (65 \<le> (of_char c :: nat) \<and> (of_char c :: nat) \<le> 90)"

definition is_ascii_lower :: "char \<Rightarrow> bool" where
  "is_ascii_lower c = (97 \<le> (of_char c :: nat) \<and> (of_char c :: nat) \<le> 122)"

definition ascii_upper :: "char \<Rightarrow> char" where
  "ascii_upper c = (if is_ascii_lower c then char_of (of_char c - 32 :: nat) else c)"

definition ascii_lower :: "char \<Rightarrow> char" where
  "ascii_lower c = (if is_ascii_upper c then char_of (of_char c + 32 :: nat) else c)"

fun title_loop :: "bool \<Rightarrow> string \<Rightarrow> string" where
  "title_loop previous_is_cased [] = []"
| "title_loop previous_is_cased (ch # rest) =
     (if previous_is_cased then ascii_lower ch else ascii_upper ch)
       # title_loop (is_ascii_upper ch \<or> is_ascii_lower ch) rest"

definition title :: "string \<Rightarrow> string" where
  "title s = title_loop False s"

text \<open>
  \<open>repr\<close> of a string and of a list of strings, as an f-string renders \<open>{features}\<close>:
  single quotes, unless the string holds a single quote and no double quote; the quote
  and the backslash escaped; control characters escaped.
\<close>

definition hex_digit :: "nat \<Rightarrow> char" where
  "hex_digit n = ''0123456789abcdef'' ! (n mod 16)"

definition repr_char :: "char \<Rightarrow> char \<Rightarrow> string" where
  \<open>repr_char quote ch =
     (if ch = quote \<or> ch = CHR 0x5C then [CHR 0x5C, ch]
      else if ch = CHR 0x09 then [CHR 0x5C, CHR ''t'']
      else if ch = CHR 0x0A then [CHR 0x5C, CHR ''n'']
      else if ch = CHR 0x0D then [CHR 0x5C, CHR ''r'']
      else if (of_char ch :: nat) < 32 \<or> ch = CHR 0x7F
        then [CHR 0x5C, CHR ''x'', hex_digit (of_char ch div 16), hex_digit (of_char ch)]
      else [ch])\<close>

definition repr_str :: "string \<Rightarrow> string" where
  \<open>repr_str s =
     (let quote = (if CHR 0x27 \<in> set s \<and> CHR 0x22 \<notin> set s then CHR 0x22 else CHR 0x27)
      in [quote] @ concat (map (repr_char quote) s) @ [quote])\<close>

definition repr_list :: "string list \<Rightarrow> string" where
  "repr_list xs = ''['' @ join '', '' (map repr_str xs) @ '']''"

section \<open>Manifests\<close>

definition text_of_lines :: "string list \<Rightarrow> string" where
  "text_of_lines ls = concat (map (\<lambda>l. l @ ''\<newline>'') ls)"

text \<open>The f-string that opens \<open>toml_content\<close> in \<open>generate_cargo_toml\<close>; \<open>titled\<close> is
  \<open>crate_name.split('-')[1].title()\<close>.\<close>

definition package_section :: "string \<Rightarrow> string \<Rightarrow> string \<Rightarrow> string" where
  \<open>package_section crate_name version titled =
     text_of_lines
       [''[package]'',
        ''name = "'' @ crate_name @ ''"'',
        ''version = "'' @ version @ ''"'',
        ''edition = "2021"'',
        ''description = "Kotoba '' @ titled @ '' Components"'',
        ''license = "Apache-2.0"'',
        ''repository = "https://github.com/com-junkawasaki/kotoba"'',
        '''',
        ''[dependencies]'']\<close>

text \<open>The loop over \<open>common_deps\<close>.\<close>

fun common_loop :: "dep_config py_dict \<Rightarrow> string \<Rightarrow> string" where
  \<open>common_loop [] toml_content = toml_content\<close>
| \<open>common_loop ((dep, ConfigStr config) # rest) toml_content =
     common_loop rest (toml_content @ dep @ '' = "'' @ config @ ''"'' @ ''\<newline>'')\<close>
| \<open>common_loop ((dep, ConfigDict version features) # rest) toml_content =
     (if features \<noteq> []
      then common_loop rest
             (toml_content @ dep @ '' = { version = "'' @ version @ ''", features = ''
                @ repr_list features @ '' }'' @ ''\<newline>'')
      else common_loop rest (toml_content @ dep @ '' = "'' @ version @ ''"'' @ ''\<newline>''))\<close>

text \<open>The loop over the resolved dependencies.\<close>

fun internal_loop :: "crate_generator \<Rightarrow> string \<Rightarrow> string list \<Rightarrow> string \<Rightarrow> py_error + string" where
  \<open>internal_loop self crate_name [] toml_content = Inr toml_content\<close>
| \<open>internal_loop self crate_name (dep # rest) toml_content =
     (if dep \<noteq> [] \<and> dep \<noteq> crate_name then
        (case get_crate_version self dep of
           Inl err \<Rightarrow> Inl err
         | Inr dep_version \<Rightarrow>
             internal_loop self crate_name rest
               (toml_content @ dep @ '' = { path = "../'' @ dep @ ''", version = "''
                  @ dep_version @ ''" }'' @ ''\<newline>''))
      else internal_loop self crate_name rest toml_content)\<close>

definition wasm_section :: string where
  \<open>wasm_section =
     text_of_lines
       ['''',
        ''[features]'',
        ''default = ["std"]'',
        ''std = []'',
        ''wasm = ["wasm-bindgen", "web-sys", "js-sys"]'',
        '''',
        ''[target.'cfg(target_arch = "wasm32")'.dependencies]'',
        ''wasm-bindgen = { version = "0.2", optional = true }'',
        ''web-sys = { version = "0.3", optional = true }'',
        ''js-sys = { version = "0.3", optional = true }'']\<close>

definition dev_dependencies_section :: string where
  \<open>dev_dependencies_section =
     text_of_lines
       ['''',
        ''[dev-dependencies]'',
        ''tokio = { version = "1.0", features = ["full"] }'']\<close>

definition generate_cargo_toml :: "set_iter \<Rightarrow> crate_generator \<Rightarrow> string \<Rightarrow> py_error + string" where
  "generate_cargo_toml it self crate_name =
     (case get_crate_version self crate_name of
        Inl err \<Rightarrow> Inl err
      | Inr version \<Rightarrow>
     (case get_crate_dependencies it self crate_name of
        Inl err \<Rightarrow> Inl err
      | Inr dependencies \<Rightarrow>
     (case list_getitem (split_on CHR ''-'' crate_name) 1 of
        Inl err \<Rightarrow> Inl err
      | Inr part \<Rightarrow>
     (case internal_loop self crate_name dependencies
             (common_loop (common_deps self) (package_section crate_name version (title part))) of
        Inl err \<Rightarrow> Inl err
      | Inr toml_content \<Rightarrow>
          Inr ((if crate_name \<in> set [''kotoba-core'', ''kotoba-graph'', ''kotoba-server'']
                then toml_content @ wasm_section else toml_content)
               @ dev_dependencies_section)))))"

text \<open>\<open>generate_workspace_cargo_toml\<close>: the keys of the mapping, one line each
  (\<open>member_line\<close> is the f-string of the generator expression), then the root crate.\<close>

definition member_line :: "string \<Rightarrow> string" where
  \<open>member_line member = ''    "'' @ member @ ''",''\<close>

definition generate_workspace_cargo_toml :: "crate_generator \<Rightarrow> string" where
  \<open>generate_workspace_cargo_toml self =
     (let workspace_members = dict_keys (crate_mapping self);
          members_str = join ''\<newline>'' (map member_line workspace_members)
      in text_of_lines [''[workspace]'', ''members = [''] @ members_str @ ''\<newline>'' @
         text_of_lines
           [''    "kotoba",  # Root crate'',
            '']'',
            '''',
            ''[workspace.package]'',
            ''version = "0.1.0"'',
            ''edition = "2021"'',
            ''license = "Apache-2.0"'',
            ''repository = "https://github.com/com-junkawasaki/kotoba"'',
            '''',
            ''[workspace.dependencies]'',
            ''# Common dependencies can be defined here'',
            ''serde = { version = "1.0", features = ["derive"] }'',
            ''serde_json = "1.0"'',
            ''thiserror = "2.0"'',
            ''anyhow = "1.0"''])\<close>

section \<open>The data of the script\<close>

text \<open>\<open>crate_mapping\<close> and \<open>common_deps\<close> of \<open>__init__\<close>, and the graph of \<open>_load_dag_data\<close>.\<close>

definition completed :: node where
  "completed = [(''status'', ''completed'')]"

definition pending :: node where
  "pending = [(''status'', ''pending'')]"

definition in_progress :: node where
  "in_progress = [(''status'', ''in_progress'')]"

definition shipped_crate_mapping :: "string list py_dict" where
  "shipped_crate_mapping =
     [(''kotoba-core'',
         [''types'', ''ir_catalog'', ''ir_rule'', ''ir_query'', ''ir_patch'', ''ir_strategy'']),
      (''kotoba-graph'', [''graph_vertex'', ''graph_edge'', ''graph_core'']),
      (''kotoba-storage'', [''storage_mvcc'', ''storage_merkle'', ''storage_lsm'']),
      (''kotoba-execution'',
         [''execution_parser'', ''execution_engine'', ''planner_logical'',
          ''planner_physical'', ''planner_optimizer'']),
      (''kotoba-rewrite'', [''rewrite_matcher'', ''rewrite_applier'', ''rewrite_engine'']),
      (''kotoba-server'',
         [''http_ir'', ''http_parser'', ''http_handlers'', ''http_engine'', ''http_server'',
          ''frontend_component_ir'', ''frontend_route_ir'', ''frontend_render_ir'',
          ''frontend_build_ir'', ''frontend_api_ir'', ''frontend_framework''])]"

definition shipped_common_deps :: "dep_config py_dict" where
  "shipped_common_deps =
     [(''serde'', ConfigDict ''1.0'' [''derive'']),
      (''serde_json'', ConfigStr ''1.0''),
      (''thiserror'', ConfigStr ''2.0''),
      (''anyhow'', ConfigStr ''1.0'')]"

definition shipped_dag :: dag where
  "shipped_dag =
     \<lparr>nodes =
        [(''types'', completed), (''ir_catalog'', completed), (''ir_rule'', completed),
         (''ir_query'', completed), (''ir_patch'', completed), (''ir_strategy'', completed),
         (''graph_vertex'', completed), (''graph_edge'', completed), (''graph_core'', completed),
         (''storage_mvcc'', completed), (''storage_merkle'', completed),
         (''storage_lsm'', completed),
         (''execution_parser'', completed), (''execution_engine'', completed),
         (''planner_logical'', completed), (''planner_physical'', completed),
         (''planner_optimizer'', completed),
         (''rewrite_matcher'', completed), (''rewrite_applier'', completed),
         (''rewrite_engine'', completed),
         (''http_ir'', completed), (''http_parser'', pending), (''http_handlers'', pending),
         (''http_engine'', pending), (''http_server'', pending),
         (''frontend_component_ir'', completed), (''frontend_route_ir'', completed),
         (''frontend_render_ir'', completed), (''frontend_build_ir'', completed),
         (''frontend_api_ir'', completed), (''frontend_framework'', in_progress)],
      edges =
        [\<lparr>e_from = ''types'', e_to = ''ir_catalog''\<rparr>,
         \<lparr>e_from = ''types'', e_to = ''graph_vertex''\<rparr>,
         \<lparr>e_from = ''types'', e_to = ''graph_edge''\<rparr>,
         \<lparr>e_from = ''graph_vertex'', e_to = ''graph_core''\<rparr>,
         \<lparr>e_from = ''graph_edge'', e_to = ''graph_core''\<rparr>,
         \<lparr>e_from = ''types'', e_to = ''graph_core''\<rparr>]\<rparr>"

definition shipped :: crate_generator where
  "shipped =
     \<lparr>crate_mapping = shipped_crate_mapping, dag_data = shipped_dag,
      common_deps = shipped_common_deps\<rparr>"

section \<open>Notions used to state the properties\<close>

text \<open>
  The components of a package that the version policy counts are its members that are
  nodes of the graph (\<open>total_of\<close>) and, among them, those whose status is
  \<open>completed\<close> (\<open>completed_of\<close>). A name that is no key of the mapping has no members.
\<close>

definition is_completed :: "node py_dict \<Rightarrow> string \<Rightarrow> bool" where
  "is_completed ns c =
     (case map_of ns c of None \<Rightarrow> False | Some n \<Rightarrow> map_of n ''status'' = Some ''completed'')"

definition members_of :: "crate_generator \<Rightarrow> string \<Rightarrow> string list" where
  "members_of self P = dict_get (crate_mapping self) P []"

definition total_of :: "crate_generator \<Rightarrow> string \<Rightarrow> nat" where
  "total_of self P = length (filter (dict_contains (nodes (dag_data self))) (members_of self P))"

definition completed_of :: "crate_generator \<Rightarrow> string \<Rightarrow> nat" where
  "completed_of self P = length (filter (is_completed (nodes (dag_data self))) (members_of self P))"

text \<open>The three tiers, the version strings that stand for them, and their order
  \<open>dev \<le> alpha \<le> release\<close>.\<close>

datatype tier = Dev | Alpha | Release

definition tier_string :: "tier \<Rightarrow> string" where
  "tier_string t = (case t of Dev \<Rightarrow> ''0.1.0-dev'' | Alpha \<Rightarrow> ''0.1.0-alpha'' | Release \<Rightarrow> ''0.1.0'')"


text \<open>A component is assigned when some package of the mapping lists it.\<close>

definition is_assigned :: "string list py_dict \<Rightarrow> string \<Rightarrow> bool" where
  "is_assigned cm c = (c \<in> set (concat (map snd cm)))"

text \<open>The generator whose graph has lost every edge that leads into a component that is
  no node.\<close>

definition without_undeclared_targets :: "crate_generator \<Rightarrow> crate_generator" where
  "without_undeclared_targets self =
     self\<lparr>dag_data := (dag_data self)
       \<lparr>edges := filter (\<lambda>e. dict_contains (nodes (dag_data self)) (e_to e)) (edges (dag_data self))\<rparr>\<rparr>"

text \<open>
  Two iteration orders of sets: by a hash of the element, for two different hashes (as two
  processes with different salts have them). \<open>short_first\<close> visits shorter strings
  first, \<open>long_first\<close> longer ones.
\<close>

definition hash_order :: "(string \<Rightarrow> nat) \<Rightarrow> set_iter" where
  "hash_order h xs = sort_key h (remdups xs)"

definition short_first :: set_iter where
  "short_first = hash_order length"

definition long_first :: set_iter where
  "long_first = hash_order (\<lambda>s. 100 - length s)"

text \<open>
  Reading the members back from a workspace manifest: the manifest opens with the table
  \<open>[workspace]\<close> and the key \<open>members\<close>, whose value is an array of strings. Between
  the strings of the array a \<open>#\<close> starts a comment that runs to the end of the line, and
  \<open>]\<close> closes the array. (Names with a double quote or a backslash would need
  escapes, which the generator does not write; \<open>plain_name\<close> excludes them.)
\<close>

datatype scan = Between | InString string | InComment

fun scan_array :: "scan \<Rightarrow> string list \<Rightarrow> string \<Rightarrow> string list option" where
  \<open>scan_array st acc [] = None\<close>
| \<open>scan_array Between acc (c # cs) =
     (if c = CHR '']'' then Some acc
      else if c = CHR 0x22 then scan_array (InString []) acc cs
      else if c = CHR ''#'' then scan_array InComment acc cs
      else scan_array Between acc cs)\<close>
| \<open>scan_array (InString s) acc (c # cs) =
     (if c = CHR 0x22 then scan_array Between (acc @ [s]) cs
      else scan_array (InString (s @ [c])) acc cs)\<close>
| \<open>scan_array InComment acc (c # cs) =
     (if c = CHR 0x0A then scan_array Between acc cs
      else scan_array InComment acc cs)\<close>

fun strip_prefix :: "string \<Rightarrow> string \<Rightarrow> string option" where
  "strip_prefix [] s = Some s"
| "strip_prefix (p # ps) [] = None"
| "strip_prefix (p # ps) (c # cs) = (if p = c then strip_prefix ps cs else None)"

definition workspace_members :: "string \<Rightarrow> string list option" where
  \<open>workspace_members manifest =
     (case strip_prefix (text_of_lines [''[workspace]''] @ ''members = ['') manifest of
        None \<Rightarrow> None
      | Some rest \<Rightarrow> scan_array Between [] rest)\<close>

definition plain_name :: "string \<Rightarrow> bool" where
  "plain_name s = (CHR 0x22 \<notin> set s \<and> CHR 0x5C \<notin> set s)"

section \<open>Small generators used as concrete inputs\<close>

text \<open>
  \<open>two_edges\<close>: the components \<open>a\<close>, \<open>b\<close> of \<open>kotoba-x\<close> both feed \<open>c\<close> of
  \<open>kotoba-y\<close>; \<open>kotoba-empty\<close> has no components, and the one component of
  \<open>kotoba-ghost\<close> is no node of the graph.
\<close>

definition two_edges :: crate_generator where
  "two_edges =
     \<lparr>crate_mapping =
        [(''kotoba-x'', [''a'', ''b'']), (''kotoba-y'', [''c'']), (''kotoba-empty'', []),
         (''kotoba-ghost'', [''ghost''])],
      dag_data =
        \<lparr>nodes = [(''a'', completed), (''b'', completed), (''c'', pending)],
         edges = [\<lparr>e_from = ''a'', e_to = ''c''\<rparr>, \<lparr>e_from = ''b'', e_to = ''c''\<rparr>]\<rparr>,
      common_deps = shipped_common_deps\<rparr>"

text \<open>
  \<open>tiers\<close>: \<open>kotoba-tie\<close> has four of five components completed, \<open>kotoba-low\<close> two of
  five, \<open>kotoba-half\<close> one of two.
\<close>

definition tiers :: crate_generator where
  "tiers =
     \<lparr>crate_mapping =
        [(''kotoba-tie'', [''t1'', ''t2'', ''t3'', ''t4'', ''t5'']),
         (''kotoba-low'', [''l1'', ''l2'', ''l3'', ''l4'', ''l5'']),
         (''kotoba-half'', [''h1'', ''h2''])],
      dag_data =
        \<lparr>nodes =
           [(''t1'', completed), (''t2'', completed), (''t3'', completed), (''t4'', completed),
            (''t5'', pending),
            (''l1'', completed), (''l2'', completed), (''l3'', pending), (''l4'', pending),
            (''l5'', in_progress),
            (''h1'', completed), (''h2'', in_progress)],
         edges = []\<rparr>,
      common_deps = shipped_common_deps\<rparr>"

text \<open>\<open>loop_only\<close>: the two members of \<open>kotoba-loop\<close> depend on each other and on nothing
  else.\<close>

definition loop_only :: crate_generator where
  "loop_only =
     \<lparr>crate_mapping = [(''kotoba-core'', [''types'']), (''kotoba-loop'', [''p'', ''q''])],
      dag_data =
        \<lparr>nodes = [(''types'', completed), (''p'', completed), (''q'', pending)],
         edges = [\<lparr>e_from = ''p'', e_to = ''q''\<rparr>, \<lparr>e_from = ''q'', e_to = ''p''\<rparr>]\<rparr>,
      common_deps = shipped_common_deps\<rparr>"

text \<open>\<open>undeclared_target\<close>: the edge from \<open>a\<close> leads into \<open>c\<close>, a member of \<open>kotoba-y\<close>
  that was never added to the nodes.\<close>

definition undeclared_target :: crate_generator where
  "undeclared_target =
     \<lparr>crate_mapping = [(''kotoba-x'', [''a'']), (''kotoba-y'', [''c''])],
      dag_data =
        \<lparr>nodes = [(''a'', completed)],
         edges = [\<lparr>e_from = ''a'', e_to = ''c''\<rparr>]\<rparr>,
      common_deps = shipped_common_deps\<rparr>"

text \<open>\<open>two_producers\<close>: the one component of \<open>kotoba-storage\<close> is fed from
  \<open>kotoba-core\<close> and from \<open>kotoba-graph\<close>.\<close>

definition two_producers :: crate_generator where
  "two_producers =
     \<lparr>crate_mapping =
        [(''kotoba-core'', [''types'']), (''kotoba-graph'', [''graph_core'']),
         (''kotoba-storage'', [''storage_lsm''])],
      dag_data =
        \<lparr>nodes = [(''types'', completed), (''graph_core'', completed), (''storage_lsm'', completed)],
         edges =
           [\<lparr>e_from = ''types'', e_to = ''storage_lsm''\<rparr>,
            \<lparr>e_from = ''graph_core'', e_to = ''storage_lsm''\<rparr>]\<rparr>,
      common_deps = shipped_common_deps\<rparr>"

section \<open>Facts about the loops\<close>

lemma dict_getitem_contains:
  "dict_contains d k \<Longrightarrow> \<exists>v. dict_getitem d k = Inr v"
proof -
  assume "dict_contains d k"
  then have "k \<in> fst ` set d" by (simp add: dict_contains_def)
  then obtain v where "map_of d k = Some v"
    by (metis domD dom_map_of_conv_image_fst)
  then show ?thesis by (simp add: dict_getitem_def)
qed

lemma set_collect_deps:
  "set (collect_deps g components acc) =
     set acc \<union> {d. \<exists>cmp \<in> set components. dict_contains (nodes g) cmp \<and> d \<in> set (producers g cmp)}"
  by (induction components arbitrary: acc) auto

lemma external_loop_eq:
  "external_loop cm crate_name deps acc =
     acc @ filter (\<lambda>c. c \<noteq> crate_name) (map (get_crate_from_component cm) deps)"
  by (induction deps arbitrary: acc) (simp_all add: Let_def)

lemma get_crate_dependencies_known:
  assumes "dict_contains (crate_mapping self) crate_name"
  shows "\<exists>components. dict_getitem (crate_mapping self) crate_name = Inr components \<and>
           get_crate_dependencies it self crate_name =
             Inr (it (filter (\<lambda>c. c \<noteq> crate_name)
                        (map (get_crate_from_component (crate_mapping self))
                           (it (collect_deps (dag_data self) components [])))))"
proof -
  from dict_getitem_contains [OF assms] obtain components
    where c: "dict_getitem (crate_mapping self) crate_name = Inr components" by blast
  show ?thesis
    using assms c by (simp add: get_crate_dependencies_def external_loop_eq Let_def)
qed

section \<open>Dependency resolution: no self-dependency, no duplicates\<close>

text \<open>
  Claim C1. For every package \<open>P\<close>, \<open>_get_crate_dependencies(P)\<close> returns (it does not
  raise) a list that never contains \<open>P\<close> itself and holds no entry twice, whatever the
  graph and the partition are, and so however many edges lead from components of another
  package into components of \<open>P\<close>.
\<close>

theorem resolve_no_self_no_duplicates:
  assumes "set_iter_ok it"
  shows "\<exists>deps. get_crate_dependencies it self P = Inr deps \<and> distinct deps \<and> P \<notin> set deps"
proof (cases "dict_contains (crate_mapping self) P")
  case False
  then show ?thesis by (simp add: get_crate_dependencies_def)
next
  case True
  from get_crate_dependencies_known [OF True, of it] obtain components where
    r: "get_crate_dependencies it self P =
          Inr (it (filter (\<lambda>c. c \<noteq> P)
                     (map (get_crate_from_component (crate_mapping self))
                        (it (collect_deps (dag_data self) components [])))))"
    by blast
  from assms have "\<And>xs. distinct (it xs)" and "\<And>xs. set (it xs) = set xs"
    by (simp_all add: set_iter_ok_def)
  with r show ?thesis by simp
qed

theorem resolve_no_self_no_duplicates_witness:
  "set_iter_ok remdups \<and>
   (\<exists>deps. get_crate_dependencies remdups two_edges ''kotoba-y'' = Inr deps \<and>
      distinct deps \<and> ''kotoba-y'' \<notin> set deps)"
  using resolve_no_self_no_duplicates [of remdups two_edges "''kotoba-y''"]
  by (simp add: set_iter_ok_def)

lemma two_edges_single_entry:
  "get_crate_dependencies remdups two_edges ''kotoba-y'' = Inr [''kotoba-x'']"
  by code_simp

section \<open>Version policy: the counts\<close>

lemma dict_contains_map_of:
  "dict_contains d k \<longleftrightarrow> map_of d k \<noteq> None"
  by (simp add: dict_contains_def map_of_eq_None_iff)

lemma is_completed_contains:
  "is_completed ns c \<Longrightarrow> dict_contains ns c"
  by (auto simp: is_completed_def dict_contains_map_of split: option.splits)

lemma count_loop_eq:
  "count_loop ns cs (c, t) =
     Inr (c + length (filter (is_completed ns) cs), t + length (filter (dict_contains ns) cs))"
proof (induction cs arbitrary: c t)
  case Nil
  show ?case by simp
next
  case (Cons x xs)
  show ?case
  proof (cases "map_of ns x")
    case None
    then have "\<not> dict_contains ns x" "\<not> is_completed ns x"
      by (simp_all add: dict_contains_map_of is_completed_def)
    then show ?thesis using Cons.IH by simp
  next
    case (Some n)
    then have "dict_contains ns x" "dict_getitem ns x = Inr n"
      by (simp_all add: dict_contains_map_of dict_getitem_def)
    moreover have "is_completed ns x \<longleftrightarrow> map_of n ''status'' = Some ''completed''"
      using Some by (simp add: is_completed_def)
    ultimately show ?thesis using Cons.IH by simp
  qed
qed

lemma count_components_eq:
  "count_components self P = Inr (completed_of self P, total_of self P)"
  by (simp add: count_components_def count_loop_eq completed_of_def total_of_def members_of_def)

lemma get_crate_version_eq:
  "get_crate_version self P = version_of_counts (completed_of self P) (total_of self P)"
  by (simp add: get_crate_version_def count_components_eq)

lemma completed_le_total: "completed_of self P \<le> total_of self P"
proof -
  have "length (filter A xs) \<le> length (filter B xs)" if "\<And>x. A x \<Longrightarrow> B x"
    for A B and xs :: "string list"
    using that by (induction xs) auto
  then show ?thesis
    unfolding completed_of_def total_of_def using is_completed_contains by blast
qed

lemma tiers_counts:
  "completed_of tiers ''kotoba-tie'' = 4" "total_of tiers ''kotoba-tie'' = 5"
  "completed_of tiers ''kotoba-low'' = 2" "total_of tiers ''kotoba-low'' = 5"
  "completed_of tiers ''kotoba-half'' = 1" "total_of tiers ''kotoba-half'' = 2"
  by code_simp+

section \<open>Rounding to doubles\<close>

lemma rhe_floor: "round_half_even x = \<lfloor>x\<rfloor> \<or> round_half_even x = \<lfloor>x\<rfloor> + 1"
  by (simp add: round_half_even_def Let_def)

lemma rhe_upper: "of_int (round_half_even x) \<le> x + 1 / 2"
  unfolding round_half_even_def Let_def by (auto; linarith)

lemma rhe_lower: "x - 1 / 2 \<le> of_int (round_half_even x)"
  unfolding round_half_even_def Let_def by (auto; linarith)


lemma rhe_le_int: "x < of_int n + 1 / 2 \<Longrightarrow> round_half_even x \<le> n"
proof -
  assume "x < of_int n + 1 / 2"
  with rhe_upper [of x] have "(of_int (round_half_even x) :: rat) < of_int n + 1"
    by linarith
  then have "(of_int (round_half_even x) :: rat) < of_int (n + 1)" by simp
  then have "round_half_even x < n + 1" by (simp only: of_int_less_iff)
  then show ?thesis by simp
qed

lemma rhe_ge_int: "of_int n - 1 / 2 < x \<Longrightarrow> n \<le> round_half_even x"
proof -
  assume "of_int n - 1 / 2 < x"
  with rhe_lower [of x] have "(of_int n :: rat) - 1 < of_int (round_half_even x)"
    by linarith
  then have "(of_int (n - 1) :: rat) < of_int (round_half_even x)" by simp
  then have "n - 1 < round_half_even x" by (simp only: of_int_less_iff)
  then show ?thesis by simp
qed

lemma rhe_mono: "x \<le> y \<Longrightarrow> round_half_even x \<le> round_half_even y"
proof -
  assume xy: "x \<le> y"
  then have f: "\<lfloor>x\<rfloor> \<le> \<lfloor>y\<rfloor>" by (rule floor_mono)
  show ?thesis
  proof (cases "\<lfloor>x\<rfloor> = \<lfloor>y\<rfloor>")
    case True
    with xy show ?thesis
      unfolding round_half_even_def Let_def by (auto; linarith)
  next
    case False
    with f have "\<lfloor>x\<rfloor> + 1 \<le> \<lfloor>y\<rfloor>" by simp
    with rhe_floor [of x] rhe_floor [of y] show ?thesis by auto
  qed
qed

lemma binade_bounds:
  assumes "0 < a" and "0 < b"
  shows "2 powi binade a b \<le> (of_nat a / of_nat b :: rat)"
    and "(of_nat a / of_nat b :: rat) < 2 powi (binade a b + 1)"
proof -
  let ?la = "bitlen (int a)" and ?lb = "bitlen (int b)"
  have a: "2 ^ nat (?la - 1) \<le> int a" "int a < 2 ^ nat ?la"
    using bitlen_bounds [of "int a"] assms(1) by auto
  have b: "2 ^ nat (?lb - 1) \<le> int b" "int b < 2 ^ nat ?lb"
    using bitlen_bounds [of "int b"] assms(2) by auto
  have la: "1 \<le> ?la" using assms(1) bitlen_eq_zero_iff [of "int a"] bitlen_nonneg [of "int a"]
    by (smt (verit) of_nat_0_less_iff)
  have lb: "1 \<le> ?lb" using assms(2) bitlen_eq_zero_iff [of "int b"] bitlen_nonneg [of "int b"]
    by (smt (verit) of_nat_0_less_iff)
  have ra: "(2::rat) powi (?la - 1) \<le> of_nat a" "(of_nat a :: rat) < 2 powi ?la"
  proof -
    have "(of_int (2 ^ nat (?la - 1)) :: rat) \<le> of_int (int a)" using a(1) by (simp only: of_int_le_iff)
    then show "(2::rat) powi (?la - 1) \<le> of_nat a" using la by (simp add: power_int_def)
    have "(of_int (int a) :: rat) < of_int (2 ^ nat ?la)" using a(2) by (simp only: of_int_less_iff)
    then show "(of_nat a :: rat) < 2 powi ?la" using la by (simp add: power_int_def)
  qed
  have rb: "(2::rat) powi (?lb - 1) \<le> of_nat b" "(of_nat b :: rat) < 2 powi ?lb"
  proof -
    have "(of_int (2 ^ nat (?lb - 1)) :: rat) \<le> of_int (int b)" using b(1) by (simp only: of_int_le_iff)
    then show "(2::rat) powi (?lb - 1) \<le> of_nat b" using lb by (simp add: power_int_def)
    have "(of_int (int b) :: rat) < of_int (2 ^ nat ?lb)" using b(2) by (simp only: of_int_less_iff)
    then show "(of_nat b :: rat) < 2 powi ?lb" using lb by (simp add: power_int_def)
  qed
  have bpos: "(0::rat) < of_nat b" using assms(2) by simp
  let ?e0 = "?la - ?lb"
  have up: "(of_nat a :: rat) < of_nat b * 2 powi (?e0 + 1)"
  proof -
    have "(2::rat) powi ?la = 2 powi (?lb - 1) * 2 powi (?e0 + 1)"
      by (simp add: power_int_add [symmetric])
    also have "\<dots> \<le> of_nat b * 2 powi (?e0 + 1)"
      using rb(1) by (intro mult_right_mono) simp_all
    finally show ?thesis using ra(2) by linarith
  qed
  have lo: "(of_nat b :: rat) * 2 powi (?e0 - 1) \<le> of_nat a"
  proof -
    have "(of_nat b :: rat) * 2 powi (?e0 - 1) \<le> 2 powi ?lb * 2 powi (?e0 - 1)"
      using rb(2) by (intro mult_right_mono) simp_all
    also have "\<dots> = 2 powi (?la - 1)" by (simp add: power_int_add [symmetric])
    finally show ?thesis using ra(1) by linarith
  qed
  show "2 powi binade a b \<le> (of_nat a / of_nat b :: rat)"
    using lo bpos by (auto simp: binade_def Let_def pos_le_divide_eq mult.commute)
  show "(of_nat a / of_nat b :: rat) < 2 powi (binade a b + 1)"
    using up bpos by (auto simp: binade_def Let_def pos_divide_less_eq mult.commute not_le)
qed

lemma powi_less_imp_less:
  "(2::rat) powi m < 2 powi n \<Longrightarrow> m < n"
proof (rule ccontr)
  assume l: "(2::rat) powi m < 2 powi n" and "\<not> m < n"
  then have "n \<le> m" by simp
  then have "(2::rat) powi n \<le> 2 powi m" by (intro power_int_increasing) simp_all
  with l show False by simp
qed

lemma binade_unique:
  assumes "0 < a" and "0 < b"
    and "2 powi e \<le> (of_nat a / of_nat b :: rat)" and "(of_nat a / of_nat b :: rat) < 2 powi (e + 1)"
  shows "binade a b = e"
proof -
  from binade_bounds [OF assms(1,2)] assms(3,4)
  have "(2::rat) powi binade a b < 2 powi (e + 1)" "(2::rat) powi e < 2 powi (binade a b + 1)"
    by linarith+
  then have "binade a b < e + 1" "e < binade a b + 1"
    by (auto dest: powi_less_imp_less)
  then show ?thesis by simp
qed

lemma scaled_bounds:
  assumes "0 < a" and "0 < b"
  shows "2 ^ 52 \<le> (of_nat a / of_nat b :: rat) * 2 powi (52 - binade a b)"
    and "(of_nat a / of_nat b :: rat) * 2 powi (52 - binade a b) < 2 ^ 53"
proof -
  let ?e = "binade a b" and ?q = "(of_nat a / of_nat b :: rat)"
  have p: "(0::rat) < 2 powi (52 - ?e)" by simp
  have "(2::rat) ^ 52 = 2 powi ?e * 2 powi (52 - ?e)"
    by (simp add: power_int_add [symmetric])
  also have "\<dots> \<le> ?q * 2 powi (52 - ?e)"
    using binade_bounds(1) [OF assms] p by (intro mult_right_mono) simp_all
  finally show "2 ^ 52 \<le> ?q * 2 powi (52 - ?e)" .
  have "?q * 2 powi (52 - ?e) < 2 powi (?e + 1) * 2 powi (52 - ?e)"
    using binade_bounds(2) [OF assms] p by (intro mult_strict_right_mono) simp_all
  also have "\<dots> = 2 ^ 53" by (simp add: power_int_add [symmetric])
  finally show "?q * 2 powi (52 - ?e) < 2 ^ 53" .
qed

lemma powi_split: "(2::rat) powi (m + n) = 2 powi m * 2 powi n"
  by (rule power_int_add) simp

lemma powi_52: "(2::rat) powi 52 = 2 ^ 52" and powi_53: "(2::rat) powi 53 = 2 ^ 53"
  by simp_all

lemma nearest_double_bounds:
  assumes "0 < a" and "0 < b"
  shows "2 powi binade a b \<le> nearest_double a b"
    and "nearest_double a b \<le> 2 powi (binade a b + 1)"
proof -
  let ?e = "binade a b"
  define x where "x = (of_nat a / of_nat b :: rat) * 2 powi (52 - ?e)"
  have nd: "nearest_double a b = of_int (round_half_even x) * 2 powi (?e - 52)"
    using assms(1) by (simp add: nearest_double_def Let_def x_def)
  have x: "2 ^ 52 \<le> x" "x < 2 ^ 53"
    using scaled_bounds [OF assms] by (simp_all only: x_def)
  have "(of_int (2 ^ 52) :: rat) - 1 / 2 < x" using x(1) by simp
  then have "2 ^ 52 \<le> round_half_even x" by (rule rhe_ge_int)
  then have "(of_int (2 ^ 52) :: rat) \<le> of_int (round_half_even x)"
    by (simp only: of_int_le_iff)
  then have lo: "(2::rat) ^ 52 \<le> of_int (round_half_even x)" by simp
  have "x < of_int (2 ^ 53) + 1 / 2" using x(2) by simp
  then have "round_half_even x \<le> 2 ^ 53" by (rule rhe_le_int)
  then have "(of_int (round_half_even x) :: rat) \<le> of_int (2 ^ 53)"
    by (simp only: of_int_le_iff)
  then have hi: "of_int (round_half_even x) \<le> (2::rat) ^ 53" by simp
  have "(2::rat) powi ?e = 2 powi (52 + (?e - 52))"
    by (rule arg_cong [where f = "\<lambda>n. 2 powi n"]) simp
  also have "\<dots> = 2 powi 52 * 2 powi (?e - 52)" by (rule powi_split)
  also have "\<dots> = 2 ^ 52 * 2 powi (?e - 52)" by (simp only: powi_52)
  also have "\<dots> \<le> of_int (round_half_even x) * 2 powi (?e - 52)"
    using lo by (intro mult_right_mono) simp_all
  finally show "2 powi ?e \<le> nearest_double a b" unfolding nd .
  have "of_int (round_half_even x) * 2 powi (?e - 52) \<le> (2::rat) ^ 53 * 2 powi (?e - 52)"
    using hi by (intro mult_right_mono) simp_all
  also have "\<dots> = 2 powi 53 * 2 powi (?e - 52)" by (simp only: powi_53)
  also have "\<dots> = 2 powi (53 + (?e - 52))" by (rule powi_split [symmetric])
  also have "\<dots> = 2 powi (?e + 1)" by (rule arg_cong [where f = "\<lambda>n. 2 powi n"]) simp
  finally show "nearest_double a b \<le> 2 powi (?e + 1)" unfolding nd .
qed

lemma nearest_double_nonneg: "0 < b \<Longrightarrow> 0 \<le> nearest_double a b"
proof (cases "a = 0")
  case True
  then show ?thesis by (simp add: nearest_double_def)
next
  case False
  assume "0 < b"
  with False nearest_double_bounds(1) [of a b] have "2 powi binade a b \<le> nearest_double a b"
    by simp
  moreover have "(0::rat) < 2 powi binade a b" by simp
  ultimately show ?thesis by linarith
qed

lemma nearest_double_mono:
  assumes "0 < b1" and "0 < b2"
    and "(of_nat a1 / of_nat b1 :: rat) \<le> of_nat a2 / of_nat b2"
  shows "nearest_double a1 b1 \<le> nearest_double a2 b2"
proof (cases "a1 = 0")
  case True
  then show ?thesis using nearest_double_nonneg [OF assms(2)] by (simp add: nearest_double_def)
next
  case False
  then have a1: "0 < a1" by simp
  have "(0::rat) < of_nat a1 / of_nat b1" using a1 assms(1) by simp
  with assms(3) have "(0::rat) < of_nat a2 / of_nat b2" by linarith
  then have a2: "0 < a2" using assms(2) by (simp add: zero_less_divide_iff)
  let ?e1 = "binade a1 b1" and ?e2 = "binade a2 b2"
  have "(2::rat) powi ?e1 < 2 powi (?e2 + 1)"
    using binade_bounds(1) [OF a1 assms(1)] binade_bounds(2) [OF a2 assms(2)] assms(3)
    by linarith
  then have le: "?e1 \<le> ?e2" by (auto dest: powi_less_imp_less)
  show ?thesis
  proof (cases "?e1 = ?e2")
    case True
    have "(of_nat a1 / of_nat b1 :: rat) * 2 powi (52 - ?e2) \<le> of_nat a2 / of_nat b2 * 2 powi (52 - ?e2)"
      using assms(3) by (intro mult_right_mono) simp_all
    then have "round_half_even (of_nat a1 / of_nat b1 * 2 powi (52 - ?e2)) \<le>
               round_half_even (of_nat a2 / of_nat b2 * 2 powi (52 - ?e2))"
      by (rule rhe_mono)
    then have "(of_int (round_half_even (of_nat a1 / of_nat b1 * 2 powi (52 - ?e2))) :: rat) \<le>
               of_int (round_half_even (of_nat a2 / of_nat b2 * 2 powi (52 - ?e2)))"
      by (simp only: of_int_le_iff)
    then have "(of_int (round_half_even (of_nat a1 / of_nat b1 * 2 powi (52 - ?e2))) :: rat) * 2 powi (?e2 - 52) \<le>
               of_int (round_half_even (of_nat a2 / of_nat b2 * 2 powi (52 - ?e2))) * 2 powi (?e2 - 52)"
      by (intro mult_right_mono) simp_all
    then show ?thesis using a1 a2 True by (simp add: nearest_double_def Let_def)
  next
    case False
    with le have "?e1 + 1 \<le> ?e2" by simp
    then have "(2::rat) powi (?e1 + 1) \<le> 2 powi ?e2" by (intro power_int_increasing) simp_all
    with nearest_double_bounds(2) [OF a1 assms(1)] nearest_double_bounds(1) [OF a2 assms(2)]
    show ?thesis by linarith
  qed
qed

lemma double_0_8: "nearest_double 8 10 = 7205759403792794 / 2 ^ 53"
  by code_simp

lemma double_0_5: "nearest_double 5 10 = 1 / 2"
  by code_simp

lemma nearest_double_below_half:
  assumes "0 < c" and "0 < t" and "2 * c < t"
  shows "binade c t \<le> - 2" and "nearest_double c t \<le> 1 / 2"
proof -
  define q where "q = (of_nat c / of_nat t :: rat)"
  have "q < 1 / 2"
  proof -
    have "(of_nat (2 * c) :: rat) < of_nat t" using assms(3) by (simp only: of_nat_less_iff)
    then show ?thesis using assms(2) by (simp add: q_def pos_divide_less_eq)
  qed
  moreover have "2 powi binade c t \<le> q"
    using binade_bounds(1) [OF assms(1,2)] by (simp only: q_def)
  moreover have "(2::rat) powi (- 1) = 1 / 2" by (simp add: power_int_minus)
  ultimately have "(2::rat) powi binade c t < 2 powi (- 1)" by linarith
  then have "binade c t < - 1" by (rule powi_less_imp_less)
  then show e: "binade c t \<le> - 2" by simp
  then have "(2::rat) powi (binade c t + 1) \<le> 2 powi (- 1)"
    by (intro power_int_increasing) simp_all
  with nearest_double_bounds(2) [OF assms(1,2)] show "nearest_double c t \<le> 1 / 2"
    by (simp add: power_int_minus)
qed

lemma below_release_threshold:
  assumes "0 < t" and "t < 2 ^ 54" and "5 * c < 4 * t"
  shows "nearest_double c t < nearest_double 8 10"
proof (cases "c = 0")
  case True
  then show ?thesis by (simp add: double_0_8) (simp add: nearest_double_def)
next
  case False
  then have c: "0 < c" by simp
  show ?thesis
  proof (cases "2 * c < t")
    case True
    from nearest_double_below_half(2) [OF c assms(1) True] show ?thesis
      by (simp add: double_0_8)
  next
    case False
    define q where "q = (of_nat c / of_nat t :: rat)"
    have tpos: "(0::rat) < of_nat t" using assms(1) by simp
    have "t \<le> 2 * c" using False by simp
    then have "(of_nat t :: rat) \<le> of_nat (2 * c)" by (simp only: of_nat_le_iff)
    then have lo: "2 powi (- 1) \<le> q"
      using tpos by (simp add: q_def power_int_minus pos_le_divide_eq)
    have "c < t" using assms(3) by simp
    then have "(of_nat c :: rat) < of_nat t" by (simp only: of_nat_less_iff)
    then have hi: "q < 2 powi (- 1 + 1)" using tpos by (simp add: q_def)
    have e: "binade c t = - 1"
      using binade_unique [OF c assms(1), of "- 1"] lo hi by (simp only: q_def)
    have nd: "nearest_double c t = of_int (round_half_even (q * 2 powi 53)) * 2 powi (- 53)"
      using c by (simp add: nearest_double_def Let_def e q_def)
    have "5 * 18014398509481984 * c < 72057594037927935 * t"
      using assms(2,3) by simp
    then have "(of_nat (5 * 18014398509481984 * c) :: rat) < of_nat (72057594037927935 * t)"
      by (simp only: of_nat_less_iff)
    then have "(of_nat c :: rat) * 9007199254740992 < (7205759403792793 + 1 / 2) * of_nat t"
      by simp
    then have "q * 9007199254740992 < 7205759403792793 + 1 / 2"
      using tpos by (simp add: q_def pos_divide_less_eq)
    then have "q * 2 powi 53 < of_int 7205759403792793 + 1 / 2" by simp
    then have "round_half_even (q * 2 powi 53) \<le> 7205759403792793" by (rule rhe_le_int)
    then have "(of_int (round_half_even (q * 2 powi 53)) :: rat) \<le> of_int 7205759403792793"
      by (simp only: of_int_le_iff)
    then have "nearest_double c t \<le> 7205759403792793 * 2 powi (- 53)"
      unfolding nd by (intro mult_right_mono) simp_all
    then show ?thesis by (simp add: double_0_8 power_int_minus)
  qed
qed

lemma below_alpha_threshold:
  assumes "0 < t" and "t < 2 ^ 54" and "2 * c < t"
  shows "nearest_double c t < nearest_double 5 10"
proof (cases "c = 0")
  case True
  then show ?thesis by (simp add: double_0_5) (simp add: nearest_double_def)
next
  case False
  then have c: "0 < c" by simp
  note e = nearest_double_below_half(1) [OF c assms(1,3)]
  show ?thesis
  proof (cases "binade c t = - 2")
    case True
    define q where "q = (of_nat c / of_nat t :: rat)"
    have tpos: "(0::rat) < of_nat t" using assms(1) by simp
    have nd: "nearest_double c t = of_int (round_half_even (q * 2 powi 54)) * 2 powi (- 54)"
      using c by (simp add: nearest_double_def Let_def True q_def)
    have "2 * 18014398509481984 * c < 18014398509481983 * t"
      using assms(2,3) by simp
    then have "(of_nat (2 * 18014398509481984 * c) :: rat) < of_nat (18014398509481983 * t)"
      by (simp only: of_nat_less_iff)
    then have "(of_nat c :: rat) * 18014398509481984 < (9007199254740991 + 1 / 2) * of_nat t"
      by simp
    then have "q * 18014398509481984 < 9007199254740991 + 1 / 2"
      using tpos by (simp add: q_def pos_divide_less_eq)
    then have "q * 2 powi 54 < of_int 9007199254740991 + 1 / 2" by simp
    then have "round_half_even (q * 2 powi 54) \<le> 9007199254740991" by (rule rhe_le_int)
    then have "(of_int (round_half_even (q * 2 powi 54)) :: rat) \<le> of_int 9007199254740991"
      by (simp only: of_int_le_iff)
    then have "nearest_double c t \<le> 9007199254740991 * 2 powi (- 54)"
      unfolding nd by (intro mult_right_mono) simp_all
    then show ?thesis by (simp add: double_0_5 power_int_minus)
  next
    case False
    with e have "binade c t + 1 \<le> - 2" by simp
    then have "(2::rat) powi (binade c t + 1) \<le> 2 powi (- 2)"
      by (intro power_int_increasing) simp_all
    with nearest_double_bounds(2) [OF c assms(1)] show ?thesis
      by (simp add: double_0_5 power_int_minus)
  qed
qed

lemma double_thresholds:
  assumes "0 < t" and "t < 2 ^ 54"
  shows "nearest_double 8 10 \<le> nearest_double c t \<longleftrightarrow> 4 * t \<le> 5 * c"
    and "nearest_double 5 10 \<le> nearest_double c t \<longleftrightarrow> t \<le> 2 * c"
proof -
  have tpos: "(0::rat) < of_nat t" using assms(1) by simp
  have "nearest_double 8 10 \<le> nearest_double c t" if "4 * t \<le> 5 * c"
  proof -
    have "(of_nat (4 * t) :: rat) \<le> of_nat (5 * c)" using that by (simp only: of_nat_le_iff)
    then have "(of_nat 8 / of_nat 10 :: rat) \<le> of_nat c / of_nat t"
      using tpos by (simp add: pos_le_divide_eq)
    then show ?thesis using assms(1) by (intro nearest_double_mono) simp_all
  qed
  moreover have "\<not> nearest_double 8 10 \<le> nearest_double c t" if "\<not> 4 * t \<le> 5 * c"
    using below_release_threshold [OF assms, of c] that by simp
  ultimately show "nearest_double 8 10 \<le> nearest_double c t \<longleftrightarrow> 4 * t \<le> 5 * c" by blast
  have "nearest_double 5 10 \<le> nearest_double c t" if "t \<le> 2 * c"
  proof -
    have "(of_nat t :: rat) \<le> of_nat (2 * c)" using that by (simp only: of_nat_le_iff)
    then have "(of_nat 5 / of_nat 10 :: rat) \<le> of_nat c / of_nat t"
      using tpos by (simp add: pos_le_divide_eq)
    then show ?thesis using assms(1) by (intro nearest_double_mono) simp_all
  qed
  moreover have "\<not> nearest_double 5 10 \<le> nearest_double c t" if "\<not> t \<le> 2 * c"
    using below_alpha_threshold [OF assms, of c] that by simp
  ultimately show "nearest_double 5 10 \<le> nearest_double c t \<longleftrightarrow> t \<le> 2 * c" by blast
qed

section \<open>Version policy: the thresholds\<close>

lemma version_of_counts_double:
  assumes "0 < t"
  shows "version_of_counts c t =
           Inr (tier_string (if float_0_8 \<le> nearest_double c t then Release
                             else if float_0_5 \<le> nearest_double c t then Alpha else Dev))"
  using assms by (simp add: version_of_counts_def py_truediv_def tier_string_def)

lemma version_of_counts_tier:
  assumes "0 < t" and "t < 2 ^ 54"
  shows "version_of_counts c t =
           Inr (tier_string (if 4 * t \<le> 5 * c then Release else if t \<le> 2 * c then Alpha else Dev))"
  unfolding version_of_counts_double [OF assms(1)] float_0_8_def float_0_5_def
    double_thresholds [OF assms] ..






text \<open>Why the bound: with \<open>5 * 2^55\<close> components of which one less than four fifths
  is completed, the ratio lies below \<open>0.8\<close> and the quotient rounds to the double
  \<open>0.8\<close>.\<close>

lemma rounding_beyond_the_bound:
  "(of_nat 144115188075855871 / of_nat 180143985094819840 :: rat) < 8 / 10"
  "version_of_counts 144115188075855871 180143985094819840 = Inr ''0.1.0''"
proof -
  show "(of_nat 144115188075855871 / of_nat 180143985094819840 :: rat) < 8 / 10" by simp
  define x where
    "x = (of_nat 144115188075855871 / of_nat 180143985094819840 :: rat) * 2 powi (52 - (- 1))"
  have x: "x = 144115188075855871 / 20" by (simp add: x_def)
  have e: "binade 144115188075855871 180143985094819840 = - 1"
    by (rule binade_unique) (simp_all add: power_int_minus)
  have "7205759403792794 \<le> round_half_even x" by (rule rhe_ge_int) (simp add: x)
  moreover have "round_half_even x \<le> 7205759403792794" by (rule rhe_le_int) (simp add: x)
  ultimately have r: "round_half_even x = 7205759403792794" by simp
  have "nearest_double 144115188075855871 180143985094819840 =
          of_int (round_half_even x) * 2 powi (- 1 - 52)"
    unfolding x_def by (simp add: nearest_double_def e)
  then have "nearest_double 144115188075855871 180143985094819840 = 7205759403792794 / 2 ^ 53"
    unfolding r by (simp add: power_int_minus)
  then show "version_of_counts 144115188075855871 180143985094819840 = Inr ''0.1.0''"
    by (simp add: version_of_counts_def py_truediv_def float_0_8_def double_0_8)
qed

lemma half_is_alpha:
  "get_crate_version tiers ''kotoba-half'' = Inr ''0.1.0-alpha''"
  by (simp add: get_crate_version_eq version_of_counts_tier tiers_counts tier_string_def)

lemma shipped_server_is_alpha:
  "get_crate_version shipped ''kotoba-server'' = Inr ''0.1.0-alpha''"
  by code_simp

text \<open>
  Claim C3, as amended. For a package with no counted component (\<open>total = 0\<close>),
  \<open>_get_crate_version\<close> raises nothing: it returns the base version \<open>"0.1.0"\<close>, the
  string of the release tier.
\<close>

theorem version_of_empty_package:
  assumes "total_of self P = 0"
  shows "get_crate_version self P = Inr ''0.1.0''"
  using assms by (simp add: get_crate_version_eq version_of_counts_def)

theorem version_of_empty_package_witness:
  "total_of two_edges ''kotoba-ghost'' = 0 \<and>
   get_crate_version two_edges ''kotoba-ghost'' = Inr ''0.1.0''"
proof -
  have t: "total_of two_edges ''kotoba-ghost'' = 0" by code_simp
  show ?thesis using version_of_empty_package [OF t] t by simp
qed

theorem empty_package_counterexample:
  "members_of two_edges ''kotoba-empty'' = [] \<and>
   get_crate_version two_edges ''kotoba-empty'' = Inr ''0.1.0''"
  by code_simp



lemma low_is_dev:
  "get_crate_version tiers ''kotoba-low'' = Inr ''0.1.0-dev''"
  by (simp add: get_crate_version_eq version_of_counts_tier tiers_counts tier_string_def)

lemma two_edges_versions:
  "get_crate_version two_edges ''kotoba-x'' = Inr ''0.1.0''"
  "get_crate_version two_edges ''kotoba-y'' = Inr ''0.1.0-dev''"
  by code_simp+

lemma get_crate_version_total: "\<exists>v. get_crate_version self P = Inr v"
proof (cases "total_of self P = 0")
  case True
  then show ?thesis by (simp add: get_crate_version_eq version_of_counts_def)
next
  case False
  then have "0 < total_of self P" by simp
  from version_of_counts_double [OF this] show ?thesis by (simp add: get_crate_version_eq)
qed

section \<open>Names that are no package\<close>

lemma members_of_unknown:
  "\<not> dict_contains (crate_mapping self) P \<Longrightarrow> members_of self P = []"
  by (simp add: members_of_def dict_get_def dict_contains_map_of)

lemma get_crate_dependencies_total:
  "\<exists>deps. get_crate_dependencies it self P = Inr deps"
proof (cases "dict_contains (crate_mapping self) P")
  case False
  then show ?thesis by (simp add: get_crate_dependencies_def)
next
  case True
  from get_crate_dependencies_known [OF True, of it] show ?thesis by blast
qed

text \<open>
  Claim C10. For a name \<open>P\<close> that is no key of the mapping neither operation raises:
  \<open>_get_crate_dependencies\<close> returns the empty list and \<open>_get_crate_version\<close> returns
  \<open>"0.1.0"\<close>. For every name \<open>Q\<close> whatever both operations return a value.
\<close>

theorem unknown_package_total:
  assumes "\<not> dict_contains (crate_mapping self) P"
  shows "get_crate_dependencies it self P = Inr [] \<and>
         get_crate_version self P = Inr ''0.1.0'' \<and>
         (\<exists>deps. get_crate_dependencies it self Q = Inr deps) \<and>
         (\<exists>v. get_crate_version self Q = Inr v)"
proof -
  have "total_of self P = 0"
    using members_of_unknown [OF assms] by (simp add: total_of_def)
  then have "get_crate_version self P = Inr ''0.1.0''"
    by (simp add: get_crate_version_eq version_of_counts_def)
  moreover have "get_crate_dependencies it self P = Inr []"
    using assms by (simp add: get_crate_dependencies_def)
  ultimately show ?thesis
    using get_crate_dependencies_total [of it self Q] get_crate_version_total [of self Q]
    by simp
qed

theorem unknown_package_total_witness:
  "\<not> dict_contains (crate_mapping shipped) ''kotoba-nowhere'' \<and>
   get_crate_dependencies remdups shipped ''kotoba-nowhere'' = Inr [] \<and>
   get_crate_version shipped ''kotoba-nowhere'' = Inr ''0.1.0''"
proof -
  have n: "\<not> dict_contains (crate_mapping shipped) ''kotoba-nowhere''" by code_simp
  show ?thesis using unknown_package_total [OF n, of remdups] n by simp
qed

section \<open>Packages without producers in other packages\<close>

lemma dict_get_getitem:
  "dict_getitem d k = Inr v \<Longrightarrow> dict_get d k dflt = v"
  by (auto simp: dict_getitem_def dict_get_def split: option.splits)

lemma set_iter_ok_Nil: "set_iter_ok it \<Longrightarrow> it [] = []"
proof -
  assume "set_iter_ok it"
  then have "set (it []) = set []" unfolding set_iter_ok_def by blast
  then show ?thesis by simp
qed

lemma collect_deps_internal:
  assumes "d \<in> set (collect_deps g components [])"
  shows "\<exists>e \<in> set (edges g). e_to e \<in> set components \<and> e_from e = d"
  using assms by (auto simp: set_collect_deps producers_def)

lemma resolve_empty_if_internal:
  assumes ok: "set_iter_ok it"
    and int: "\<And>e. e \<in> set (edges (dag_data self)) \<Longrightarrow> e_to e \<in> set (members_of self P) \<Longrightarrow>
               get_crate_from_component (crate_mapping self) (e_from e) = P"
  shows "get_crate_dependencies it self P = Inr []"
proof (cases "dict_contains (crate_mapping self) P")
  case False
  then show ?thesis by (simp add: get_crate_dependencies_def)
next
  case True
  from get_crate_dependencies_known [OF True, of it] obtain components where
    c: "dict_getitem (crate_mapping self) P = Inr components" and
    r: "get_crate_dependencies it self P =
          Inr (it (filter (\<lambda>c. c \<noteq> P)
                     (map (get_crate_from_component (crate_mapping self))
                        (it (collect_deps (dag_data self) components [])))))"
    by blast
  have m: "members_of self P = components"
    using c by (simp add: members_of_def dict_get_getitem)
  have s: "set (it (collect_deps (dag_data self) components [])) = set (collect_deps (dag_data self) components [])"
    using ok by (simp add: set_iter_ok_def)
  have "get_crate_from_component (crate_mapping self) d = P"
    if "d \<in> set (it (collect_deps (dag_data self) components []))" for d
  proof -
    from that s have "d \<in> set (collect_deps (dag_data self) components [])" by simp
    from collect_deps_internal [OF this] obtain e where
      "e \<in> set (edges (dag_data self))" "e_to e \<in> set components" "e_from e = d" by blast
    with int [of e] m show ?thesis by simp
  qed
  then have "filter (\<lambda>c. c \<noteq> P)
               (map (get_crate_from_component (crate_mapping self))
                  (it (collect_deps (dag_data self) components []))) = []"
    by (simp add: filter_empty_conv)
  with r set_iter_ok_Nil [OF ok] show ?thesis by simp
qed

text \<open>
  Claim C6. When no component of \<open>P\<close> has an incoming edge from a component owned by
  another package (the owner being what \<open>_get_crate_from_component\<close> returns),
  \<open>_get_crate_dependencies(P)\<close> returns the empty list. In particular a package whose
  members depend only on each other has no dependencies (\<open>mutual_members_empty\<close> below,
  for a mapping that lists no component twice).
\<close>

theorem no_inbound_cross_edges_empty:
  assumes "set_iter_ok it"
    and "\<forall>e \<in> set (edges (dag_data self)). e_to e \<in> set (members_of self P) \<longrightarrow>
           get_crate_from_component (crate_mapping self) (e_from e) = P"
  shows "get_crate_dependencies it self P = Inr []"
  using assms by (intro resolve_empty_if_internal) auto

theorem no_inbound_cross_edges_empty_witness:
  "set_iter_ok remdups \<and> members_of loop_only ''kotoba-loop'' = [''p'', ''q''] \<and>
   get_crate_dependencies remdups loop_only ''kotoba-loop'' = Inr []"
proof -
  have ok: "set_iter_ok remdups" by (simp add: set_iter_ok_def)
  have m: "members_of loop_only ''kotoba-loop'' = [''p'', ''q'']" by code_simp
  have e: "edges (dag_data loop_only) = [\<lparr>e_from = ''p'', e_to = ''q''\<rparr>, \<lparr>e_from = ''q'', e_to = ''p''\<rparr>]"
    by (simp add: loop_only_def)
  have p: "get_crate_from_component (crate_mapping loop_only) ''p'' = ''kotoba-loop''" by code_simp
  have q: "get_crate_from_component (crate_mapping loop_only) ''q'' = ''kotoba-loop''" by code_simp
  have "\<forall>e \<in> set (edges (dag_data loop_only)). e_to e \<in> set (members_of loop_only ''kotoba-loop'') \<longrightarrow>
           get_crate_from_component (crate_mapping loop_only) (e_from e) = ''kotoba-loop''"
    by (simp add: e m p q)
  from no_inbound_cross_edges_empty [OF ok this] ok m show ?thesis by simp
qed

lemma get_crate_from_component_member:
  assumes "distinct (concat (map snd cm))" and "(P, cs) \<in> set cm" and "c \<in> set cs"
  shows "get_crate_from_component cm c = P"
  using assms
proof (induction cm)
  case Nil
  then show ?case by simp
next
  case (Cons a cm)
  obtain k ks where a: "a = (k, ks)" by (cases a)
  show ?case
  proof (cases "c \<in> set ks")
    case True
    have "(P, cs) \<notin> set cm"
    proof
      assume "(P, cs) \<in> set cm"
      then have "c \<in> \<Union> (set ` set (map snd cm))" using Cons.prems(3) by force
      with True Cons.prems(1) a show False by auto
    qed
    with Cons.prems(2) a have "P = k" by simp
    with True a show ?thesis by simp
  next
    case False
    with Cons.prems a have "(P, cs) \<in> set cm" by auto
    moreover have "distinct (concat (map snd cm))" using Cons.prems(1) by simp
    ultimately have "get_crate_from_component cm c = P" using Cons.IH Cons.prems(3) by blast
    with False a show ?thesis by simp
  qed
qed

lemma members_of_in_mapping:
  "c \<in> set (members_of self P) \<Longrightarrow> (P, members_of self P) \<in> set (crate_mapping self)"
  by (auto simp: members_of_def dict_get_def split: option.splits dest: map_of_SomeD)

lemma mutual_members_empty:
  assumes "set_iter_ok it" and "distinct (concat (map snd (crate_mapping self)))"
    and "\<And>e. e \<in> set (edges (dag_data self)) \<Longrightarrow> e_to e \<in> set (members_of self P) \<Longrightarrow>
           e_from e \<in> set (members_of self P)"
  shows "get_crate_dependencies it self P = Inr []"
proof (rule resolve_empty_if_internal [OF assms(1)])
  fix e
  assume e: "e \<in> set (edges (dag_data self))" "e_to e \<in> set (members_of self P)"
  from assms(3) [OF e] have f: "e_from e \<in> set (members_of self P)" .
  from get_crate_from_component_member [OF assms(2) members_of_in_mapping [OF f] f]
  show "get_crate_from_component (crate_mapping self) (e_from e) = P" .
qed

section \<open>The package lookup is total\<close>

lemma lookup_assigned:
  "is_assigned cm c \<Longrightarrow> get_crate_from_component cm c \<in> set (dict_keys cm)"
proof (induction cm)
  case Nil
  then show ?case by (simp add: is_assigned_def)
next
  case (Cons a cm)
  obtain k ks where a: "a = (k, ks)" by (cases a)
  show ?case
  proof (cases "c \<in> set ks")
    case True
    with a show ?thesis by (simp add: dict_keys_def)
  next
    case False
    with Cons.prems a have "is_assigned cm c" by (simp add: is_assigned_def)
    from Cons.IH [OF this] False a show ?thesis by (simp add: dict_keys_def)
  qed
qed

lemma lookup_unassigned:
  "\<not> is_assigned cm c \<Longrightarrow> get_crate_from_component cm c = ''kotoba-core''"
  by (induction cm) (auto simp: is_assigned_def)

lemma get_crate_from_component_cases:
  "(is_assigned cm c \<longrightarrow> get_crate_from_component cm c \<in> set (dict_keys cm)) \<and>
   (\<not> is_assigned cm c \<longrightarrow> get_crate_from_component cm c = ''kotoba-core'')"
  using lookup_assigned lookup_unassigned by blast

text \<open>
  Claim C7. \<open>_get_crate_from_component\<close> returns a package for every component name: the
  default \<open>kotoba-core\<close> for a component that no package lists, a key of the mapping
  otherwise; and \<open>_get_crate_dependencies\<close> raises on no graph, mapping and name.
\<close>

theorem package_lookup_total:
  "(\<not> is_assigned (crate_mapping self) c \<longrightarrow>
      get_crate_from_component (crate_mapping self) c = ''kotoba-core'') \<and>
   (is_assigned (crate_mapping self) c \<longrightarrow>
      get_crate_from_component (crate_mapping self) c \<in> set (dict_keys (crate_mapping self))) \<and>
   (\<exists>deps. get_crate_dependencies it self P = Inr deps)"
  using get_crate_from_component_cases [of "crate_mapping self" c]
    get_crate_dependencies_total [of it self P] by blast

theorem package_lookup_total_witness:
  "\<not> is_assigned (crate_mapping shipped) ''cli_main'' \<and>
   get_crate_from_component (crate_mapping shipped) ''cli_main'' = ''kotoba-core'' \<and>
   is_assigned (crate_mapping shipped) ''graph_core'' \<and>
   get_crate_from_component (crate_mapping shipped) ''graph_core''
     \<in> set (dict_keys (crate_mapping shipped)) \<and>
   (\<exists>deps. get_crate_dependencies remdups shipped ''kotoba-graph'' = Inr deps)"
proof -
  have n: "\<not> is_assigned (crate_mapping shipped) ''cli_main''" by code_simp
  have a: "is_assigned (crate_mapping shipped) ''graph_core''" by code_simp
  show ?thesis
    using package_lookup_total [of shipped "''cli_main''" remdups "''kotoba-graph''"]
      package_lookup_total [of shipped "''graph_core''" remdups "''kotoba-graph''"] n a
    by blast
qed

lemma shipped_lookup:
  "get_crate_from_component (crate_mapping shipped) ''graph_core'' = ''kotoba-graph''"
  "get_crate_from_component (crate_mapping shipped) ''frontend_framework'' = ''kotoba-server''"
  by code_simp+

section \<open>Edges into components that are no nodes\<close>

lemma producers_without_undeclared:
  "dict_contains (nodes g) c \<Longrightarrow>
   producers (g\<lparr>edges := filter (\<lambda>e. dict_contains (nodes g) (e_to e)) (edges g)\<rparr>) c = producers g c"
proof -
  assume d: "dict_contains (nodes g) c"
  have "filter (\<lambda>e. e_to e = c) (filter (\<lambda>e. dict_contains (nodes g) (e_to e)) (edges g)) =
        filter (\<lambda>e. e_to e = c) (edges g)"
    using d by (induction "edges g") (auto simp: filter_id_conv intro: filter_cong)
  then show ?thesis by (simp add: producers_def)
qed

lemma collect_deps_without_undeclared:
  "collect_deps (g\<lparr>edges := filter (\<lambda>e. dict_contains (nodes g) (e_to e)) (edges g)\<rparr>) cs acc =
   collect_deps g cs acc"
  by (induction cs arbitrary: acc) (simp_all add: producers_without_undeclared)

text \<open>
  Claim C8, as amended. An edge into a component that was never added to the nodes is
  not rejected: \<open>_get_crate_dependencies\<close> raises nothing and returns what it returns
  on the graph without such edges.
\<close>

theorem edges_into_undeclared_ignored:
  "get_crate_dependencies it (without_undeclared_targets self) P = get_crate_dependencies it self P \<and>
   (\<exists>deps. get_crate_dependencies it self P = Inr deps)"
  using get_crate_dependencies_total [of it self P]
  by (simp add: get_crate_dependencies_def without_undeclared_targets_def
      collect_deps_without_undeclared Let_def split: sum.splits)

theorem edges_into_undeclared_ignored_witness:
  "edges (dag_data (without_undeclared_targets undeclared_target)) = [] \<and>
   get_crate_dependencies remdups undeclared_target ''kotoba-y'' = Inr []"
proof -
  have e: "edges (dag_data (without_undeclared_targets undeclared_target)) = []" by code_simp
  have "get_crate_dependencies remdups (without_undeclared_targets undeclared_target) ''kotoba-y'' = Inr []"
    by code_simp
  with edges_into_undeclared_ignored [of remdups undeclared_target "''kotoba-y''"] e
  show ?thesis by simp
qed

theorem undeclared_target_counterexample:
  "e_to (hd (edges (dag_data undeclared_target))) = ''c'' \<and>
   \<not> dict_contains (nodes (dag_data undeclared_target)) ''c'' \<and>
   get_crate_dependencies remdups undeclared_target ''kotoba-y'' = Inr []"
  by code_simp

section \<open>Manifests across runs\<close>

lemma set_iter_ok_hash_order: "set_iter_ok (hash_order h)"
  by (simp add: set_iter_ok_def hash_order_def)

lemma distinct_singleton:
  assumes "distinct xs" and "set xs = {x}"
  shows "xs = [x]"
proof -
  have "length xs = card (set xs)" using assms(1) by (simp add: distinct_card)
  then have "length xs = 1" using assms(2) by simp
  then obtain y where "xs = [y]" by (cases xs) auto
  with assms(2) show ?thesis by simp
qed

lemma short_distinct_same_set:
  assumes "distinct d1" and "distinct d2" and "set d1 = set d2" and "length d1 \<le> 1"
  shows "d1 = d2"
proof (cases d1)
  case Nil
  with assms(3) show ?thesis by simp
next
  case (Cons x xs)
  with assms(4) have d1: "d1 = [x]" by simp
  with assms(3) have "set d2 = {x}" by simp
  from distinct_singleton [OF assms(2) this] d1 show ?thesis by simp
qed

lemma dependencies_same_set:
  assumes "set_iter_ok it1" and "set_iter_ok it2"
  shows "\<exists>d1 d2. get_crate_dependencies it1 self P = Inr d1 \<and>
                 get_crate_dependencies it2 self P = Inr d2 \<and>
                 distinct d1 \<and> distinct d2 \<and> set d1 = set d2"
proof (cases "dict_contains (crate_mapping self) P")
  case False
  then show ?thesis by (simp add: get_crate_dependencies_def)
next
  case True
  from get_crate_dependencies_known [OF True] obtain components where
    c: "dict_getitem (crate_mapping self) P = Inr components" by blast
  have r: "get_crate_dependencies it self P =
          Inr (it (filter (\<lambda>c. c \<noteq> P)
                     (map (get_crate_from_component (crate_mapping self))
                        (it (collect_deps (dag_data self) components [])))))" for it
    using get_crate_dependencies_known [OF True, of it] c by auto
  from assms have "distinct (it1 xs)" "set (it1 xs) = set xs"
    "distinct (it2 xs)" "set (it2 xs) = set xs" for xs
    by (simp_all add: set_iter_ok_def)
  then show ?thesis by (simp add: r)
qed

lemma manifest_same_if_short:
  assumes "set_iter_ok it1" and "set_iter_ok it2"
    and "get_crate_dependencies it1 self P = Inr d1" and "length d1 \<le> 1"
  shows "generate_cargo_toml it1 self P = generate_cargo_toml it2 self P"
proof -
  from dependencies_same_set [OF assms(1,2), of self P] assms(3) obtain d2 where
    d: "get_crate_dependencies it2 self P = Inr d2" "distinct d1" "distinct d2" "set d1 = set d2"
    by auto
  from short_distinct_same_set [OF d(2,3,4) assms(4)] have "d1 = d2" .
  with assms(3) d(1) show ?thesis
    by (simp add: generate_cargo_toml_def split: sum.splits)
qed

text \<open>
  Claim C4, as amended. On an unchanged graph and partition, any two runs (any two
  iteration orders of sets) resolve, for every package, the same dependencies, each once;
  and for a package with at most one dependency \<open>generate_cargo_toml\<close> gives the same
  text in both runs. (The order of two or more dependency entries is the iteration order
  of a set, which changes from run to run.)
\<close>

theorem manifest_stable_up_to_set_order:
  assumes "set_iter_ok it1" and "set_iter_ok it2"
  shows "\<exists>d1 d2. get_crate_dependencies it1 self P = Inr d1 \<and>
                 get_crate_dependencies it2 self P = Inr d2 \<and>
                 distinct d1 \<and> distinct d2 \<and> set d1 = set d2 \<and>
                 (length d1 \<le> 1 \<longrightarrow>
                    generate_cargo_toml it1 self P = generate_cargo_toml it2 self P)"
proof -
  from dependencies_same_set [OF assms, of self P] obtain d1 d2 where
    d: "get_crate_dependencies it1 self P = Inr d1" "get_crate_dependencies it2 self P = Inr d2"
       "distinct d1" "distinct d2" "set d1 = set d2" by blast
  have "generate_cargo_toml it1 self P = generate_cargo_toml it2 self P" if "length d1 \<le> 1"
    using manifest_same_if_short [OF assms d(1) that] .
  with d show ?thesis by blast
qed

lemma shipped_graph_short:
  "get_crate_dependencies short_first shipped ''kotoba-graph'' = Inr [''kotoba-core'']"
  by code_simp

theorem manifest_stable_up_to_set_order_witness:
  "set_iter_ok short_first \<and> set_iter_ok long_first \<and>
   get_crate_dependencies short_first shipped ''kotoba-graph'' = Inr [''kotoba-core''] \<and>
   generate_cargo_toml short_first shipped ''kotoba-graph'' =
     generate_cargo_toml long_first shipped ''kotoba-graph''"
proof -
  have s: "set_iter_ok short_first" and l: "set_iter_ok long_first"
    by (simp_all add: short_first_def long_first_def set_iter_ok_hash_order)
  from manifest_stable_up_to_set_order [OF s l, of shipped "''kotoba-graph''"] s l
  show ?thesis by (auto simp: shipped_graph_short)
qed

theorem manifest_order_counterexample:
  "set_iter_ok short_first \<and> set_iter_ok long_first \<and>
   get_crate_dependencies short_first two_producers ''kotoba-storage'' =
     Inr [''kotoba-core'', ''kotoba-graph''] \<and>
   get_crate_dependencies long_first two_producers ''kotoba-storage'' =
     Inr [''kotoba-graph'', ''kotoba-core''] \<and>
   generate_cargo_toml short_first two_producers ''kotoba-storage'' \<noteq>
     generate_cargo_toml long_first two_producers ''kotoba-storage''"
proof -
  have "set_iter_ok short_first" and "set_iter_ok long_first"
    by (simp_all add: short_first_def long_first_def set_iter_ok_hash_order)
  moreover have
    "get_crate_dependencies short_first two_producers ''kotoba-storage'' =
       Inr [''kotoba-core'', ''kotoba-graph''] \<and>
     get_crate_dependencies long_first two_producers ''kotoba-storage'' =
       Inr [''kotoba-graph'', ''kotoba-core''] \<and>
     generate_cargo_toml short_first two_producers ''kotoba-storage'' \<noteq>
       generate_cargo_toml long_first two_producers ''kotoba-storage''"
    by code_simp
  ultimately show ?thesis by blast
qed

text \<open>The graph of the script gives every package at most one dependency, so its
  manifests are the same in every run.\<close>

lemma shipped_keys:
  "dict_contains (crate_mapping shipped) P \<longleftrightarrow>
     P \<in> {''kotoba-core'', ''kotoba-graph'', ''kotoba-storage'', ''kotoba-execution'',
          ''kotoba-rewrite'', ''kotoba-server''}"
  by (simp add: shipped_def shipped_crate_mapping_def dict_contains_def)

lemma shipped_dependencies:
  "get_crate_dependencies remdups shipped ''kotoba-core'' = Inr []"
  "get_crate_dependencies remdups shipped ''kotoba-graph'' = Inr [''kotoba-core'']"
  "get_crate_dependencies remdups shipped ''kotoba-storage'' = Inr []"
  "get_crate_dependencies remdups shipped ''kotoba-execution'' = Inr []"
  "get_crate_dependencies remdups shipped ''kotoba-rewrite'' = Inr []"
  "get_crate_dependencies remdups shipped ''kotoba-server'' = Inr []"
  by code_simp+

lemma shipped_at_most_one_dependency:
  "\<exists>d. get_crate_dependencies remdups shipped P = Inr d \<and> length d \<le> 1"
proof (cases "dict_contains (crate_mapping shipped) P")
  case False
  then show ?thesis by (simp add: get_crate_dependencies_def)
next
  case True
  then show ?thesis unfolding shipped_keys using shipped_dependencies by auto
qed

lemma shipped_manifests_stable:
  assumes "set_iter_ok it1" and "set_iter_ok it2"
  shows "generate_cargo_toml it1 shipped P = generate_cargo_toml it2 shipped P"
proof -
  have r: "set_iter_ok remdups" by (simp add: set_iter_ok_def)
  from shipped_at_most_one_dependency [of P] obtain d where
    d: "get_crate_dependencies remdups shipped P = Inr d" "length d \<le> 1" by blast
  from manifest_same_if_short [OF r assms(1) d] manifest_same_if_short [OF r assms(2) d]
  show ?thesis by simp
qed

section \<open>The workspace manifest\<close>

lemma scan_string_body:
  "CHR 0x22 \<notin> set m \<Longrightarrow>
   scan_array (InString s) acc (m @ CHR 0x22 # rest) = scan_array Between (acc @ [s @ m]) rest"
  by (induction m arbitrary: s) auto

lemma scan_member_line:
  assumes "CHR 0x22 \<notin> set m"
  shows "scan_array Between acc (member_line m @ CHR 0x0A # rest) =
         scan_array Between (acc @ [m]) rest"
proof -
  have "scan_array Between acc (member_line m @ CHR 0x0A # rest) =
        scan_array (InString []) acc (m @ CHR 0x22 # ('','' @ CHR 0x0A # rest))"
    by (simp add: member_line_def)
  also have "\<dots> = scan_array Between (acc @ [[] @ m]) ('','' @ CHR 0x0A # rest)"
    by (rule scan_string_body [OF assms])
  also have "\<dots> = scan_array Between (acc @ [m]) rest" by simp
  finally show ?thesis .
qed

lemma scan_member_lines:
  "\<forall>m \<in> set ms. CHR 0x22 \<notin> set m \<Longrightarrow>
   scan_array Between acc (foldr (\<lambda>m r. member_line m @ CHR 0x0A # r) ms rest) =
   scan_array Between (acc @ ms) rest"
proof (induction ms arbitrary: acc)
  case Nil
  show ?case by simp
next
  case (Cons m ms)
  have "scan_array Between acc (foldr (\<lambda>m r. member_line m @ CHR 0x0A # r) (m # ms) rest) =
        scan_array Between (acc @ [m]) (foldr (\<lambda>m r. member_line m @ CHR 0x0A # r) ms rest)"
    using Cons.prems by (simp add: scan_member_line)
  also have "\<dots> = scan_array Between ((acc @ [m]) @ ms) rest"
    using Cons.prems by (intro Cons.IH) simp
  finally show ?case by simp
qed

lemma join_lines:
  "ms \<noteq> [] \<Longrightarrow>
   join [CHR 0x0A] (map member_line ms) @ CHR 0x0A # rest =
   foldr (\<lambda>m r. member_line m @ CHR 0x0A # r) ms rest"
proof (induction ms)
  case Nil
  then show ?case by simp
next
  case (Cons m ms)
  show ?case
  proof (cases ms)
    case Nil
    then show ?thesis by simp
  next
    case (Cons m' ms')
    then have "ms \<noteq> []" by simp
    from Cons.IH [OF this] Cons show ?thesis by simp
  qed
qed

lemma scan_members_str:
  assumes "\<forall>m \<in> set ms. CHR 0x22 \<notin> set m"
  shows "scan_array Between acc
           (CHR 0x0A # join [CHR 0x0A] (map member_line ms) @ CHR 0x0A # rest) =
         scan_array Between (acc @ ms) rest"
proof (cases "ms = []")
  case True
  then show ?thesis by simp
next
  case False
  have "scan_array Between acc (CHR 0x0A # join [CHR 0x0A] (map member_line ms) @ CHR 0x0A # rest) =
        scan_array Between acc (join [CHR 0x0A] (map member_line ms) @ CHR 0x0A # rest)"
    by simp
  also have "\<dots> = scan_array Between acc (foldr (\<lambda>m r. member_line m @ CHR 0x0A # r) ms rest)"
    by (simp only: join_lines [OF False])
  also have "\<dots> = scan_array Between (acc @ ms) rest"
    by (rule scan_member_lines [OF assms])
  finally show ?thesis .
qed

lemma scan_root_crate:
  \<open>scan_array Between acc
     (text_of_lines
           [''    "kotoba",  # Root crate'',
            '']'',
            '''',
            ''[workspace.package]'',
            ''version = "0.1.0"'',
            ''edition = "2021"'',
            ''license = "Apache-2.0"'',
            ''repository = "https://github.com/com-junkawasaki/kotoba"'',
            '''',
            ''[workspace.dependencies]'',
            ''# Common dependencies can be defined here'',
            ''serde = { version = "1.0", features = ["derive"] }'',
            ''serde_json = "1.0"'',
            ''thiserror = "2.0"'',
            ''anyhow = "1.0"'']) = Some (acc @ [''kotoba''])\<close>
  by (simp add: text_of_lines_def)

lemma workspace_members_generated:
  assumes "\<forall>m \<in> set (dict_keys (crate_mapping self)). CHR 0x22 \<notin> set m"
  shows "workspace_members (generate_workspace_cargo_toml self) =
           Some (dict_keys (crate_mapping self) @ [''kotoba''])"
proof -
  have p: \<open>strip_prefix (text_of_lines [''[workspace]''] @ ''members = ['')
             (text_of_lines [''[workspace]'', ''members = [''] @ rest) =
           Some (CHR 0x0A # rest)\<close> for rest
    by (simp add: text_of_lines_def)
  have \<open>workspace_members (generate_workspace_cargo_toml self) =
        scan_array Between []
          (CHR 0x0A # join [CHR 0x0A] (map member_line (dict_keys (crate_mapping self))) @
           CHR 0x0A #
           text_of_lines
           [''    "kotoba",  # Root crate'',
            '']'',
            '''',
            ''[workspace.package]'',
            ''version = "0.1.0"'',
            ''edition = "2021"'',
            ''license = "Apache-2.0"'',
            ''repository = "https://github.com/com-junkawasaki/kotoba"'',
            '''',
            ''[workspace.dependencies]'',
            ''# Common dependencies can be defined here'',
            ''serde = { version = "1.0", features = ["derive"] }'',
            ''serde_json = "1.0"'',
            ''thiserror = "2.0"'',
            ''anyhow = "1.0"''])\<close>
    unfolding workspace_members_def generate_workspace_cargo_toml_def Let_def p by simp
  also have "\<dots> = Some ([] @ dict_keys (crate_mapping self) @ [''kotoba''])"
    unfolding scan_members_str [OF assms] scan_root_crate by simp
  finally show ?thesis by simp
qed

lemma count_list_distinct:
  "distinct xs \<Longrightarrow> count_list xs k = (if k \<in> set xs then 1 else 0)"
  by (induction xs) auto

text \<open>
  Claim C9, as amended. The workspace manifest of \<open>generate_workspace_cargo_toml\<close> lists
  as members the package identifiers of the partition, each once and in the insertion
  order of the partition definition, followed by the root crate \<open>kotoba\<close>, which is not
  taken from the partition.
\<close>

theorem workspace_members_listed:
  assumes "distinct (dict_keys (crate_mapping self))"
    and "list_all plain_name (dict_keys (crate_mapping self))"
  shows "workspace_members (generate_workspace_cargo_toml self) =
           Some (dict_keys (crate_mapping self) @ [''kotoba'']) \<and>
         (\<forall>k \<in> set (dict_keys (crate_mapping self)).
            count_list (dict_keys (crate_mapping self) @ [''kotoba'']) k =
              (if k = ''kotoba'' then 2 else 1))"
proof -
  have "\<forall>m \<in> set (dict_keys (crate_mapping self)). CHR 0x22 \<notin> set m"
    using assms(2) by (simp add: list_all_iff plain_name_def)
  from workspace_members_generated [OF this] count_list_distinct [OF assms(1)]
  show ?thesis by simp
qed

theorem workspace_members_listed_witness:
  "distinct (dict_keys (crate_mapping two_edges)) \<and>
   list_all plain_name (dict_keys (crate_mapping two_edges)) \<and>
   workspace_members (generate_workspace_cargo_toml two_edges) =
     Some [''kotoba-x'', ''kotoba-y'', ''kotoba-empty'', ''kotoba-ghost'', ''kotoba'']"
proof -
  have k: "dict_keys (crate_mapping two_edges) =
             [''kotoba-x'', ''kotoba-y'', ''kotoba-empty'', ''kotoba-ghost'']"
    by (simp add: two_edges_def dict_keys_def)
  have d: "distinct (dict_keys (crate_mapping two_edges))" unfolding k by simp
  have p: "list_all plain_name (dict_keys (crate_mapping two_edges))"
    unfolding k by (simp add: plain_name_def)
  from workspace_members_listed [OF d p] d p show ?thesis unfolding k by simp
qed

theorem workspace_root_crate_counterexample:
  "dict_keys (crate_mapping shipped) =
     [''kotoba-core'', ''kotoba-graph'', ''kotoba-storage'', ''kotoba-execution'',
      ''kotoba-rewrite'', ''kotoba-server''] \<and>
   workspace_members (generate_workspace_cargo_toml shipped) =
     Some [''kotoba-core'', ''kotoba-graph'', ''kotoba-storage'', ''kotoba-execution'',
           ''kotoba-rewrite'', ''kotoba-server'', ''kotoba'']"
  by code_simp

end
